theory Spec2Isabelle
  imports Main
begin

section \<open>ConjecTuring: bounded conjecture checking over a generator\<close>

text \<open>
  The module \<^verbatim>\<open>conjecturing.py\<close> has four search functions over a Python generator:
  \<^verbatim>\<open>find_counterexample\<close>, \<^verbatim>\<open>count_counterexamples\<close>, \<^verbatim>\<open>smallest_counterexample\<close> and
  \<^verbatim>\<open>greatest_counterexample\<close>. Each prints a heading, opens a tqdm progress bar, cuts
  the budget \<open>n\<close> into 100 batches and runs its local \<^verbatim>\<open>compute_batch\<close> on every batch.

  The embedding is state passing. A world holds the generator's state, the number of
  calls of \<^verbatim>\<open>next(generator)\<close> made so far (a ghost counter) and the trace of console and
  progress-bar effects. Every function returns its result, or the exception it raises,
  together with the world it leaves behind.

  The budget \<open>n\<close> is a Python integer. Conditions and weight functions are total and
  pure, and they are functions: the heading reads \<^verbatim>\<open>condition.__name__\<close>,
  \<^verbatim>\<open>get_object_weight.__name__\<close> and \<^verbatim>\<open>generator.__name__\<close>, which functions and generator
  objects have (a list iterator has no \<^verbatim>\<open>__name__\<close>; the candidate sources here are
  generator objects). The interpreter is 64-bit CPython.
\<close>

subsection \<open>Values, exceptions, effects\<close>

text \<open>
  A candidate is a Python object: either \<^verbatim>\<open>None\<close> or some other value. The functions
  return objects too, so a returned \<^verbatim>\<open>None\<close> is the same value whether it was a candidate
  or the "nothing found" answer.
\<close>

datatype 'a pyobj = PyNone | PyVal 'a

datatype error = StopIteration | ValueError | OverflowError

text \<open>
  The calls of \<^verbatim>\<open>print\<close> and of the progress bar, in the order they happen. The six
  heading prints of a function are one \<open>PrintHeading\<close> event carrying the operation's
  title and \<open>n\<close>; the prints of a closing message are one event each.
\<close>

datatype 'a event =
    PrintHeading string int
  | TqdmNew int
  | TqdmUpdate int
  | TqdmClose
  | PrintFound "'a pyobj"
  | PrintNoConcluding
  | PrintCount int
  | PrintNoCounterexample
  | PrintLowest "'a pyobj"
  | PrintGreatest "'a pyobj"

record ('a, 's) world =
  gen :: 's
  pulls :: nat
  out :: "'a event list"

definition emit :: "'a event list \<Rightarrow> ('a, 's) world \<Rightarrow> ('a, 's) world" where
  "emit es w = w\<lparr>out := out w @ es\<rparr>"

text \<open>
  A generator is a state and a step function: \<open>nxt s\<close> is \<open>Some (x, s')\<close> when the
  generator yields \<open>x\<close> and moves to \<open>s'\<close>, and \<open>None\<close> when it is exhausted.
  \<^verbatim>\<open>next(generator)\<close> raises \<^verbatim>\<open>StopIteration\<close> on an exhausted generator. The counter
  \<open>pulls\<close> counts every call, the one that raises included.
\<close>

definition next_gen ::
  "('s \<Rightarrow> ('a pyobj \<times> 's) option) \<Rightarrow> ('a, 's) world \<Rightarrow> (error + 'a pyobj) \<times> ('a, 's) world" where
  "next_gen nxt w =
     (case nxt (gen w) of
        None \<Rightarrow> (Inl StopIteration, w\<lparr>pulls := Suc (pulls w)\<rparr>)
      | Some (x, s') \<Rightarrow> (Inr x, w\<lparr>gen := s', pulls := Suc (pulls w)\<rparr>))"

subsection \<open>The progress bar's constructor\<close>

text \<open>
  \<^verbatim>\<open>tqdm(range(n), leave=False)\<close> is given no \<^verbatim>\<open>total\<close>, so the constructor takes
  \<^verbatim>\<open>len(range(n))\<close>. The length of a range is \<open>max 0 n\<close>, and \<^verbatim>\<open>len\<close> raises
  \<^verbatim>\<open>OverflowError\<close> when it is above \<^verbatim>\<open>sys.maxsize\<close>, which is \<open>2 ^ 63 - 1\<close>. The
  constructor catches \<^verbatim>\<open>TypeError\<close> and \<^verbatim>\<open>AttributeError\<close> only, so the error leaves it.
\<close>

definition maxsize :: int where
  "maxsize = 2 ^ 63 - 1"

definition len_range :: "int \<Rightarrow> error + int" where
  "len_range n = (if maxsize < max 0 n then Inl OverflowError else Inr (max 0 n))"

definition tqdm_new :: "int \<Rightarrow> ('a, 's) world \<Rightarrow> (error + unit) \<times> ('a, 's) world" where
  "tqdm_new n w =
     (case len_range n of
        Inl e \<Rightarrow> (Inl e, w)
      | Inr len \<Rightarrow> (Inr (), emit [TqdmNew n] w))"

subsection \<open>The built-in \<^verbatim>\<open>int\<close> on a string\<close>

text \<open>
  \<^verbatim>\<open>int(s)\<close> in base 10 on an ASCII string: surrounding whitespace is dropped, one sign
  is allowed, then decimal digits follow, with single underscores allowed between
  digits. Anything else raises \<^verbatim>\<open>ValueError\<close>.
\<close>

definition is_space :: "char \<Rightarrow> bool" where
  "is_space c = (c \<in> set [CHR '' '', CHR 0x09, CHR 0x0A, CHR 0x0B, CHR 0x0C, CHR 0x0D])"

definition is_digit :: "char \<Rightarrow> bool" where
  "is_digit c = (c \<in> set ''0123456789'')"

definition digit_value :: "char \<Rightarrow> int" where
  "digit_value c = int (of_char c) - 48"

definition strip :: "string \<Rightarrow> string" where
  "strip s = rev (dropWhile is_space (rev (dropWhile is_space s)))"

fun int_digits :: "int \<Rightarrow> bool \<Rightarrow> string \<Rightarrow> int option" where
  "int_digits acc prev [] = (if prev then Some acc else None)"
| "int_digits acc prev (c # cs) =
     (if is_digit c then int_digits (10 * acc + digit_value c) True cs
      else if c = CHR ''_'' \<and> prev then int_digits acc False cs
      else None)"

definition py_int :: "string \<Rightarrow> error + int" where
  "py_int s =
     (let t = strip s;
          (sgn, body) = (case t of
                           [] \<Rightarrow> (1, [])
                         | c # cs \<Rightarrow> if c = CHR ''+'' then (1, cs)
                                    else if c = CHR ''-'' then (- 1, cs)
                                    else (1, t))
      in case int_digits 0 False body of
           None \<Rightarrow> Inl ValueError
         | Some v \<Rightarrow> Inr (sgn * v))"

subsection \<open>The batch plan\<close>

text \<open>
  \<^verbatim>\<open>range(k)\<close> for an integer \<open>k\<close>: empty when \<open>k \<le> 0\<close>. Python's \<^verbatim>\<open>//\<close> and \<^verbatim>\<open>%\<close> round
  towards minus infinity, as \<open>div\<close> and \<open>mod\<close> on \<open>int\<close> do. The four functions compute
  \<^verbatim>\<open>listOfBatches\<close> with the same three lines.
\<close>

definition range_py :: "int \<Rightarrow> int list" where
  "range_py k = map int [0..<nat k]"

definition UPDATE_RATIO :: int where
  "UPDATE_RATIO = 100"

definition listOfBatches :: "int \<Rightarrow> int list" where
  "listOfBatches n =
     (let batch_length = n div UPDATE_RATIO;
          remaining_length = n mod UPDATE_RATIO
      in map (\<lambda>i. batch_length + 1) (range_py remaining_length)
         @ map (\<lambda>i. batch_length) (range_py (UPDATE_RATIO - remaining_length)))"

subsection \<open>\<^verbatim>\<open>find_counterexample\<close>\<close>

text \<open>
  The loop of \<^verbatim>\<open>compute_batch\<close>: the first argument is the number of iterations of
  \<^verbatim>\<open>for i in range(length)\<close> still to run.
\<close>

fun find_batch_loop ::
  "('s \<Rightarrow> ('a pyobj \<times> 's) option) \<Rightarrow> ('a pyobj \<Rightarrow> bool) \<Rightarrow> nat \<Rightarrow> ('a, 's) world
     \<Rightarrow> (error + 'a pyobj) \<times> ('a, 's) world" where
  "find_batch_loop nxt condition 0 w = (Inr PyNone, w)"
| "find_batch_loop nxt condition (Suc k) w =
     (case next_gen nxt w of
        (Inl e, w') \<Rightarrow> (Inl e, w')
      | (Inr current_object, w') \<Rightarrow>
          if \<not> condition current_object then (Inr current_object, w')
          else find_batch_loop nxt condition k w')"

definition find_compute_batch ::
  "('s \<Rightarrow> ('a pyobj \<times> 's) option) \<Rightarrow> ('a pyobj \<Rightarrow> bool) \<Rightarrow> int \<Rightarrow> ('a, 's) world
     \<Rightarrow> (error + 'a pyobj) \<times> ('a, 's) world" where
  "find_compute_batch nxt condition len w = find_batch_loop nxt condition (nat len) w"

fun find_loop ::
  "('s \<Rightarrow> ('a pyobj \<times> 's) option) \<Rightarrow> ('a pyobj \<Rightarrow> bool) \<Rightarrow> int list \<Rightarrow> ('a, 's) world
     \<Rightarrow> (error + 'a pyobj) \<times> ('a, 's) world" where
  "find_loop nxt condition [] w = (Inr PyNone, emit [TqdmClose, PrintNoConcluding] w)"
| "find_loop nxt condition (batch # rest) w =
     (case find_compute_batch nxt condition batch w of
        (Inl e, w') \<Rightarrow> (Inl e, w')
      | (Inr current_result, w') \<Rightarrow>
          (let w'' = emit [TqdmUpdate batch] w'
           in if current_result \<noteq> PyNone
              then (Inr current_result, emit [TqdmClose, PrintFound current_result] w'')
              else find_loop nxt condition rest w''))"

definition find_counterexample ::
  "int \<Rightarrow> ('a pyobj \<Rightarrow> bool) \<Rightarrow> ('s \<Rightarrow> ('a pyobj \<times> 's) option) \<Rightarrow> bool \<Rightarrow> ('a, 's) world
     \<Rightarrow> (error + 'a pyobj) \<times> ('a, 's) world" where
  "find_counterexample n condition nxt show_progress w =
     (case tqdm_new n (emit [PrintHeading ''Find counterexample'' n] w) of
        (Inl e, w0) \<Rightarrow> (Inl e, w0)
      | (Inr progress_bar, w0) \<Rightarrow> find_loop nxt condition (listOfBatches n) w0)"

subsection \<open>\<^verbatim>\<open>count_counterexamples\<close>\<close>

fun count_batch_loop ::
  "('s \<Rightarrow> ('a pyobj \<times> 's) option) \<Rightarrow> ('a pyobj \<Rightarrow> bool) \<Rightarrow> nat \<Rightarrow> int \<Rightarrow> ('a, 's) world
     \<Rightarrow> (error + int) \<times> ('a, 's) world" where
  "count_batch_loop nxt condition 0 local_count w = (Inr local_count, w)"
| "count_batch_loop nxt condition (Suc k) local_count w =
     (case next_gen nxt w of
        (Inl e, w') \<Rightarrow> (Inl e, w')
      | (Inr current_object, w') \<Rightarrow>
          if \<not> condition current_object
          then count_batch_loop nxt condition k (local_count + 1) w'
          else count_batch_loop nxt condition k local_count w')"

definition count_compute_batch ::
  "('s \<Rightarrow> ('a pyobj \<times> 's) option) \<Rightarrow> ('a pyobj \<Rightarrow> bool) \<Rightarrow> int \<Rightarrow> ('a, 's) world
     \<Rightarrow> (error + int) \<times> ('a, 's) world" where
  "count_compute_batch nxt condition len w = count_batch_loop nxt condition (nat len) 0 w"

fun count_loop ::
  "('s \<Rightarrow> ('a pyobj \<times> 's) option) \<Rightarrow> ('a pyobj \<Rightarrow> bool) \<Rightarrow> int list \<Rightarrow> int \<Rightarrow> ('a, 's) world
     \<Rightarrow> (error + int) \<times> ('a, 's) world" where
  "count_loop nxt condition [] number_of_counterexamples w = (Inr number_of_counterexamples, w)"
| "count_loop nxt condition (batch # rest) number_of_counterexamples w =
     (case count_compute_batch nxt condition batch w of
        (Inl e, w') \<Rightarrow> (Inl e, w')
      | (Inr c, w') \<Rightarrow>
          count_loop nxt condition rest (number_of_counterexamples + c)
            (emit [TqdmUpdate batch] w'))"

definition count_counterexamples ::
  "int \<Rightarrow> ('a pyobj \<Rightarrow> bool) \<Rightarrow> ('s \<Rightarrow> ('a pyobj \<times> 's) option) \<Rightarrow> bool \<Rightarrow> ('a, 's) world
     \<Rightarrow> (error + int) \<times> ('a, 's) world" where
  "count_counterexamples n condition nxt show_progress w =
     (case tqdm_new n (emit [PrintHeading ''Count counterexamples'' n] w) of
        (Inl e, w0) \<Rightarrow> (Inl e, w0)
      | (Inr progress_bar, w0) \<Rightarrow>
          (case count_loop nxt condition (listOfBatches n) 0 w0 of
             (Inl e, w') \<Rightarrow> (Inl e, w')
           | (Inr number_of_counterexamples, w') \<Rightarrow>
               (Inr number_of_counterexamples,
                emit [PrintCount number_of_counterexamples] w')))"

subsection \<open>\<^verbatim>\<open>smallest_counterexample\<close> and \<^verbatim>\<open>greatest_counterexample\<close>\<close>

text \<open>
  Both functions build their starting weight with \<^verbatim>\<open>int("inf")\<close> and \<^verbatim>\<open>int("-inf")\<close>, in
  the body of the function before the loop and again at the start of every
  \<^verbatim>\<open>compute_batch\<close>. The running pair is (counterexample, weight).
\<close>

fun smallest_batch_loop ::
  "('s \<Rightarrow> ('a pyobj \<times> 's) option) \<Rightarrow> ('a pyobj \<Rightarrow> bool) \<Rightarrow> ('a pyobj \<Rightarrow> int) \<Rightarrow> nat
     \<Rightarrow> 'a pyobj \<times> int \<Rightarrow> ('a, 's) world \<Rightarrow> (error + 'a pyobj \<times> int) \<times> ('a, 's) world" where
  "smallest_batch_loop nxt condition get_object_weight 0 best w = (Inr best, w)"
| "smallest_batch_loop nxt condition get_object_weight (Suc k) best w =
     (case next_gen nxt w of
        (Inl e, w') \<Rightarrow> (Inl e, w')
      | (Inr current_object, w') \<Rightarrow>
          if \<not> condition current_object
          then (let current_weight = get_object_weight current_object
                in if current_weight < snd best
                   then smallest_batch_loop nxt condition get_object_weight k
                          (current_object, current_weight) w'
                   else smallest_batch_loop nxt condition get_object_weight k best w')
          else smallest_batch_loop nxt condition get_object_weight k best w')"

definition smallest_compute_batch ::
  "('s \<Rightarrow> ('a pyobj \<times> 's) option) \<Rightarrow> ('a pyobj \<Rightarrow> bool) \<Rightarrow> ('a pyobj \<Rightarrow> int) \<Rightarrow> int
     \<Rightarrow> ('a, 's) world \<Rightarrow> (error + 'a pyobj \<times> int) \<times> ('a, 's) world" where
  "smallest_compute_batch nxt condition get_object_weight len w =
     (case py_int ''inf'' of
        Inl e \<Rightarrow> (Inl e, w)
      | Inr local_smallest_weight \<Rightarrow>
          smallest_batch_loop nxt condition get_object_weight (nat len)
            (PyNone, local_smallest_weight) w)"

fun smallest_loop ::
  "('s \<Rightarrow> ('a pyobj \<times> 's) option) \<Rightarrow> ('a pyobj \<Rightarrow> bool) \<Rightarrow> ('a pyobj \<Rightarrow> int) \<Rightarrow> int list
     \<Rightarrow> 'a pyobj \<times> int \<Rightarrow> ('a, 's) world \<Rightarrow> (error + 'a pyobj \<times> int) \<times> ('a, 's) world" where
  "smallest_loop nxt condition get_object_weight [] best w = (Inr best, w)"
| "smallest_loop nxt condition get_object_weight (batch # rest) best w =
     (case smallest_compute_batch nxt condition get_object_weight batch w of
        (Inl e, w') \<Rightarrow> (Inl e, w')
      | (Inr local_best, w') \<Rightarrow>
          smallest_loop nxt condition get_object_weight rest
            (if snd local_best < snd best then local_best else best)
            (emit [TqdmUpdate batch] w'))"

definition smallest_counterexample ::
  "int \<Rightarrow> ('a pyobj \<Rightarrow> bool) \<Rightarrow> ('s \<Rightarrow> ('a pyobj \<times> 's) option) \<Rightarrow> ('a pyobj \<Rightarrow> int) \<Rightarrow> bool
     \<Rightarrow> ('a, 's) world \<Rightarrow> (error + 'a pyobj) \<times> ('a, 's) world" where
  "smallest_counterexample n condition nxt get_object_weight show_progress w =
     (case tqdm_new n (emit [PrintHeading ''Find the smallest'' n] w) of
        (Inl e, w0) \<Rightarrow> (Inl e, w0)
      | (Inr progress_bar, w0) \<Rightarrow>
          (let batches = listOfBatches n
           in case py_int ''inf'' of
                Inl e \<Rightarrow> (Inl e, w0)
              | Inr smallest_weight \<Rightarrow>
                  (case smallest_loop nxt condition get_object_weight batches
                          (PyNone, smallest_weight) w0 of
                     (Inl e, w') \<Rightarrow> (Inl e, w')
                   | (Inr best, w') \<Rightarrow>
                       (Inr (fst best),
                        emit [if fst best = PyNone then PrintNoCounterexample
                              else PrintLowest (fst best)] w'))))"

fun greatest_batch_loop ::
  "('s \<Rightarrow> ('a pyobj \<times> 's) option) \<Rightarrow> ('a pyobj \<Rightarrow> bool) \<Rightarrow> ('a pyobj \<Rightarrow> int) \<Rightarrow> nat
     \<Rightarrow> 'a pyobj \<times> int \<Rightarrow> ('a, 's) world \<Rightarrow> (error + 'a pyobj \<times> int) \<times> ('a, 's) world" where
  "greatest_batch_loop nxt condition get_object_weight 0 best w = (Inr best, w)"
| "greatest_batch_loop nxt condition get_object_weight (Suc k) best w =
     (case next_gen nxt w of
        (Inl e, w') \<Rightarrow> (Inl e, w')
      | (Inr current_object, w') \<Rightarrow>
          if \<not> condition current_object
          then (let current_weight = get_object_weight current_object
                in if current_weight > snd best
                   then greatest_batch_loop nxt condition get_object_weight k
                          (current_object, current_weight) w'
                   else greatest_batch_loop nxt condition get_object_weight k best w')
          else greatest_batch_loop nxt condition get_object_weight k best w')"

definition greatest_compute_batch ::
  "('s \<Rightarrow> ('a pyobj \<times> 's) option) \<Rightarrow> ('a pyobj \<Rightarrow> bool) \<Rightarrow> ('a pyobj \<Rightarrow> int) \<Rightarrow> int
     \<Rightarrow> ('a, 's) world \<Rightarrow> (error + 'a pyobj \<times> int) \<times> ('a, 's) world" where
  "greatest_compute_batch nxt condition get_object_weight len w =
     (case py_int ''-inf'' of
        Inl e \<Rightarrow> (Inl e, w)
      | Inr local_greatest_weight \<Rightarrow>
          greatest_batch_loop nxt condition get_object_weight (nat len)
            (PyNone, local_greatest_weight) w)"

fun greatest_loop ::
  "('s \<Rightarrow> ('a pyobj \<times> 's) option) \<Rightarrow> ('a pyobj \<Rightarrow> bool) \<Rightarrow> ('a pyobj \<Rightarrow> int) \<Rightarrow> int list
     \<Rightarrow> 'a pyobj \<times> int \<Rightarrow> ('a, 's) world \<Rightarrow> (error + 'a pyobj \<times> int) \<times> ('a, 's) world" where
  "greatest_loop nxt condition get_object_weight [] best w = (Inr best, w)"
| "greatest_loop nxt condition get_object_weight (batch # rest) best w =
     (case greatest_compute_batch nxt condition get_object_weight batch w of
        (Inl e, w') \<Rightarrow> (Inl e, w')
      | (Inr local_best, w') \<Rightarrow>
          greatest_loop nxt condition get_object_weight rest
            (if snd local_best > snd best then local_best else best)
            (emit [TqdmUpdate batch] w'))"

definition greatest_counterexample ::
  "int \<Rightarrow> ('a pyobj \<Rightarrow> bool) \<Rightarrow> ('s \<Rightarrow> ('a pyobj \<times> 's) option) \<Rightarrow> ('a pyobj \<Rightarrow> int) \<Rightarrow> bool
     \<Rightarrow> ('a, 's) world \<Rightarrow> (error + 'a pyobj) \<times> ('a, 's) world" where
  "greatest_counterexample n condition nxt get_object_weight show_progress w =
     (case tqdm_new n (emit [PrintHeading ''Find the greatest'' n] w) of
        (Inl e, w0) \<Rightarrow> (Inl e, w0)
      | (Inr progress_bar, w0) \<Rightarrow>
          (let batches = listOfBatches n
           in case py_int ''-inf'' of
                Inl e \<Rightarrow> (Inl e, w0)
              | Inr greatest_weight \<Rightarrow>
                  (case greatest_loop nxt condition get_object_weight batches
                          (PyNone, greatest_weight) w0 of
                     (Inl e, w') \<Rightarrow> (Inl e, w')
                   | (Inr best, w') \<Rightarrow>
                       (Inr (fst best),
                        emit [if fst best = PyNone then PrintNoCounterexample
                              else PrintGreatest (fst best)] w'))))"

subsection \<open>What a generator yields\<close>

text \<open>
  \<open>gen_take nxt k s\<close> is the list of the first \<open>k\<close> objects the generator yields from state
  \<open>s\<close>, with the state after them, or \<open>None\<close> when it yields fewer than \<open>k\<close>.
\<close>

fun gen_take ::
  "('s \<Rightarrow> ('a pyobj \<times> 's) option) \<Rightarrow> nat \<Rightarrow> 's \<Rightarrow> ('a pyobj list \<times> 's) option" where
  "gen_take nxt 0 s = Some ([], s)"
| "gen_take nxt (Suc k) s =
     (case nxt s of
        None \<Rightarrow> None
      | Some (x, s') \<Rightarrow>
          (case gen_take nxt k s' of
             None \<Rightarrow> None
           | Some (xs, s'') \<Rightarrow> Some (x # xs, s'')))"

text \<open>
  The unbatched scan: the first candidate of a list that fails the condition, \<^verbatim>\<open>None\<close>
  when there is none.
\<close>

definition first_failing :: "('a pyobj \<Rightarrow> bool) \<Rightarrow> 'a pyobj list \<Rightarrow> 'a pyobj" where
  "first_failing condition xs =
     (case List.find (\<lambda>x. \<not> condition x) xs of None \<Rightarrow> PyNone | Some x \<Rightarrow> x)"

text \<open>
  How many candidates a batch of \<open>k\<close> iterations takes from \<open>xs\<close> when it stops at the
  first candidate failing the condition, and how many a list of batches takes when
  every batch is followed by the next one.
\<close>

definition batch_pulls :: "('a pyobj \<Rightarrow> bool) \<Rightarrow> nat \<Rightarrow> 'a pyobj list \<Rightarrow> nat" where
  "batch_pulls condition k xs = min k (Suc (length (takeWhile condition xs)))"

fun search_pulls :: "('a pyobj \<Rightarrow> bool) \<Rightarrow> int list \<Rightarrow> 'a pyobj list \<Rightarrow> nat" where
  "search_pulls condition [] xs = 0"
| "search_pulls condition (b # bs) xs =
     batch_pulls condition (nat b) xs
       + search_pulls condition bs (drop (batch_pulls condition (nat b) xs) xs)"

subsection \<open>Concrete inputs\<close>

text \<open>
  A generator that yields the elements of a list and stops (the generator object of
  \<^verbatim>\<open>def candidates(): yield from xs\<close>), a generator that counts upwards for ever
  (\<^verbatim>\<open>while True: yield i; i += 1\<close>), a fresh world, three conditions (one that no object
  satisfies, one that every object satisfies, and "is an even number", which \<^verbatim>\<open>None\<close>
  fails), a weight, and five short lists of candidates.
\<close>

definition list_next :: "'a pyobj list \<Rightarrow> ('a pyobj \<times> 'a pyobj list) option" where
  "list_next xs = (case xs of [] \<Rightarrow> None | x # rest \<Rightarrow> Some (x, rest))"

definition count_from :: "int \<Rightarrow> (int pyobj \<times> int) option" where
  "count_from i = Some (PyVal i, i + 1)"

definition fresh :: "'s \<Rightarrow> ('a, 's) world" where
  "fresh s = \<lparr>gen = s, pulls = 0, out = []\<rparr>"

definition never_holds :: "int pyobj \<Rightarrow> bool" where
  "never_holds x = False"

definition always_holds :: "int pyobj \<Rightarrow> bool" where
  "always_holds x = True"

fun is_even :: "int pyobj \<Rightarrow> bool" where
  "is_even PyNone = False"
| "is_even (PyVal i) = (i mod 2 = 0)"

fun identity_weight :: "int pyobj \<Rightarrow> int" where
  "identity_weight PyNone = 0"
| "identity_weight (PyVal i) = i"

definition zero_to_nine :: "int pyobj list" where
  "zero_to_nine =
     [PyVal 0, PyVal 1, PyVal 2, PyVal 3, PyVal 4, PyVal 5, PyVal 6, PyVal 7, PyVal 8, PyVal 9]"

definition none_then_five :: "int pyobj list" where
  "none_then_five = [PyNone, PyVal 5]"


definition three_evens :: "int pyobj list" where
  "three_evens = [PyVal 0, PyVal 2, PyVal 4]"

definition one_odd :: "int pyobj list" where
  "one_odd = [PyVal 1]"

section \<open>The batch plan\<close>

lemma range_py_length: "length (range_py k) = nat k"
  by (simp add: range_py_def)

lemma map_const_range_py: "map (\<lambda>i. c) (range_py k) = replicate (nat k) c"
  by (simp add: range_py_def map_replicate_const)

lemma listOfBatches_replicate:
  "listOfBatches n =
     replicate (nat (n mod 100)) (n div 100 + 1) @ replicate (nat (100 - n mod 100)) (n div 100)"
  by (simp add: listOfBatches_def UPDATE_RATIO_def Let_def map_const_range_py)

lemma listOfBatches_length: "length (listOfBatches n) = 100"
proof -
  have "0 \<le> n mod 100" "n mod 100 < 100" by simp_all
  then have "nat (n mod 100) + nat (100 - n mod 100) = 100" by linarith
  then show ?thesis by (simp add: listOfBatches_replicate)
qed

lemma listOfBatches_sum: "sum_list (listOfBatches n) = n"
proof -
  have "0 \<le> n mod 100" "n mod 100 < 100" by simp_all
  then have "sum_list (listOfBatches n) = (n mod 100) * (n div 100 + 1) + (100 - n mod 100) * (n div 100)"
    by (simp add: listOfBatches_replicate sum_list_replicate)
  also have "\<dots> = 100 * (n div 100) + n mod 100" by (simp add: algebra_simps)
  also have "\<dots> = n" by simp
  finally show ?thesis .
qed

lemma listOfBatches_set: "set (listOfBatches n) \<subseteq> {n div 100, n div 100 + 1}"
  by (auto simp: listOfBatches_replicate)

lemma sorted_wrt_replicate_refl: "(\<And>x. P x x) \<Longrightarrow> sorted_wrt P (replicate k c)"
  by (induction k) auto

lemma listOfBatches_descending: "sorted_wrt (\<lambda>a b. b \<le> a) (listOfBatches n)"
  by (auto simp: listOfBatches_replicate sorted_wrt_append sorted_wrt_replicate_refl)

section \<open>The sentinel \<^verbatim>\<open>int("inf")\<close>\<close>

lemma py_int_inf: "py_int ''inf'' = Inl ValueError"
  by (simp add: py_int_def strip_def is_space_def is_digit_def)

lemma py_int_minus_inf: "py_int ''-inf'' = Inl ValueError"
  by (simp add: py_int_def strip_def is_space_def is_digit_def)

lemma py_int_sane: "py_int '' -1_000 '' = Inr (- 1000)"
  by (simp add: py_int_def strip_def is_space_def is_digit_def digit_value_def)

section \<open>Generators\<close>

lemma gen_take_length: "gen_take nxt k s = Some (xs, s') \<Longrightarrow> length xs = k"
  by (induction k arbitrary: s xs) (auto split: option.splits)

lemma gen_take_add:
  "gen_take nxt (a + b) s = Some (xs, s') \<Longrightarrow>
     \<exists>s1. gen_take nxt a s = Some (take a xs, s1) \<and> gen_take nxt b s1 = Some (drop a xs, s')"
proof (induction a arbitrary: s xs)
  case 0
  then show ?case by simp
next
  case (Suc a)
  from Suc.prems obtain x s0 xs' where
    step: "nxt s = Some (x, s0)" and rest: "gen_take nxt (a + b) s0 = Some (xs', s')"
    and xs: "xs = x # xs'"
    by (auto split: option.splits)
  from Suc.IH [OF rest] obtain s1 where
    "gen_take nxt a s0 = Some (take a xs', s1)" "gen_take nxt b s1 = Some (drop a xs', s')"
    by blast
  then show ?case by (simp add: step xs)
qed

lemma gen_take_list_next: "k \<le> length xs \<Longrightarrow> gen_take list_next k xs = Some (take k xs, drop k xs)"
  by (induction k arbitrary: xs) (auto simp: list_next_def split: list.splits)

section \<open>Counting\<close>

lemma count_batch_loop_ok:
  "gen_take nxt k (gen w) = Some (xs, s') \<Longrightarrow>
     count_batch_loop nxt condition k c w =
       (Inr (c + int (length (filter (\<lambda>x. \<not> condition x) xs))), w\<lparr>gen := s', pulls := pulls w + k\<rparr>)"
proof (induction k arbitrary: w c xs)
  case 0
  then show ?case by simp
next
  case (Suc k)
  from Suc.prems obtain x s1 xs' where
    step: "nxt (gen w) = Some (x, s1)" and rest: "gen_take nxt k s1 = Some (xs', s')"
    and xs: "xs = x # xs'"
    by (auto split: option.splits)
  let ?w1 = "w\<lparr>gen := s1, pulls := Suc (pulls w)\<rparr>"
  have ng: "next_gen nxt w = (Inr x, ?w1)" by (simp add: next_gen_def step)
  have "gen_take nxt k (gen ?w1) = Some (xs', s')" using rest by simp
  from Suc.IH [OF this] show ?case
    by (simp add: ng xs)
qed

lemma count_loop_ok:
  "gen_take nxt (sum_list (map nat bs)) (gen w) = Some (xs, s') \<Longrightarrow>
     count_loop nxt condition bs acc w =
       (Inr (acc + int (length (filter (\<lambda>x. \<not> condition x) xs))),
        w\<lparr>gen := s', pulls := pulls w + sum_list (map nat bs), out := out w @ map TqdmUpdate bs\<rparr>)"
proof (induction bs arbitrary: w acc xs)
  case Nil
  then show ?case by simp
next
  case (Cons b bs)
  from Cons.prems obtain s1 where
    a: "gen_take nxt (nat b) (gen w) = Some (take (nat b) xs, s1)" and
    b: "gen_take nxt (sum_list (map nat bs)) s1 = Some (drop (nat b) xs, s')"
    using gen_take_add [of nxt "nat b" "sum_list (map nat bs)" "gen w" xs s'] by auto
  let ?w1 = "emit [TqdmUpdate b] (w\<lparr>gen := s1, pulls := pulls w + nat b\<rparr>)"
  have "gen_take nxt (sum_list (map nat bs)) (gen ?w1) = Some (drop (nat b) xs, s')"
    using b by (simp add: emit_def)
  from Cons.IH [OF this]
  have ih: "count_loop nxt condition bs acc' ?w1 =
       (Inr (acc' + int (length (filter (\<lambda>x. \<not> condition x) (drop (nat b) xs)))),
        ?w1\<lparr>gen := s', pulls := pulls ?w1 + sum_list (map nat bs), out := out ?w1 @ map TqdmUpdate bs\<rparr>)" for acc'
    by simp
  have split: "length (filter (\<lambda>x. \<not> condition x) xs) =
     length (filter (\<lambda>x. \<not> condition x) (take (nat b) xs)) + length (filter (\<lambda>x. \<not> condition x) (drop (nat b) xs))"
    by (metis append_take_drop_id filter_append length_append)
  have "count_loop nxt condition (b # bs) acc w =
          count_loop nxt condition bs
            (acc + int (length (filter (\<lambda>x. \<not> condition x) (take (nat b) xs)))) ?w1"
    by (simp add: count_compute_batch_def count_batch_loop_ok [OF a])
  then show ?case
    by (simp add: ih split) (simp add: emit_def)
qed

section \<open>Finding the first counterexample\<close>

lemma find_batch_loop_spec:
  assumes "gen_take nxt m (gen w) = Some (xs, s')" and "k \<le> m"
  shows "\<exists>r w' p. find_batch_loop nxt condition k w = (Inr r, w') \<and> p \<le> k
           \<and> pulls w' = pulls w + p \<and> out w' = out w
           \<and> gen_take nxt (m - p) (gen w') = Some (drop p xs, s')
           \<and> ((r = PyNone \<and> p = k \<and> (\<forall>x\<in>set (take p xs). condition x))
              \<or> (\<not> condition r \<and> (\<exists>ys. take p xs = ys @ [r] \<and> (\<forall>x\<in>set ys. condition x))))"
  using assms
proof (induction k arbitrary: w m xs)
  case 0
  then show ?case by simp
next
  case (Suc k)
  from Suc.prems obtain m' where m: "m = Suc m'" and km: "k \<le> m'"
    by (cases m) auto
  from Suc.prems(1) m obtain x s1 xs' where
    step: "nxt (gen w) = Some (x, s1)" and rest: "gen_take nxt m' s1 = Some (xs', s')"
    and xs: "xs = x # xs'"
    by (auto split: option.splits)
  let ?w1 = "w\<lparr>gen := s1, pulls := Suc (pulls w)\<rparr>"
  have ng: "next_gen nxt w = (Inr x, ?w1)" by (simp add: next_gen_def step)
  show ?case
  proof (cases "condition x")
    case False
    have "find_batch_loop nxt condition (Suc k) w = (Inr x, ?w1)"
      using False by (simp add: ng)
    moreover have "gen_take nxt (m - 1) (gen ?w1) = Some (drop 1 xs, s')"
      using rest by (simp add: m xs)
    moreover have "take 1 xs = [] @ [x]" by (simp add: xs)
    ultimately show ?thesis using False
      by (intro exI [of _ x] exI [of _ ?w1] exI [of _ 1]) auto
  next
    case True
    have "gen_take nxt m' (gen ?w1) = Some (xs', s')" using rest by simp
    from Suc.IH [OF this km] obtain r w' p where
      run: "find_batch_loop nxt condition k ?w1 = (Inr r, w')" and pk: "p \<le> k"
      and pl: "pulls w' = pulls ?w1 + p" and ou: "out w' = out ?w1"
      and gt: "gen_take nxt (m' - p) (gen w') = Some (drop p xs', s')"
      and alt: "(r = PyNone \<and> p = k \<and> (\<forall>x\<in>set (take p xs'). condition x))
              \<or> (\<not> condition r \<and> (\<exists>ys. take p xs' = ys @ [r] \<and> (\<forall>x\<in>set ys. condition x)))"
      by blast
    have 1: "find_batch_loop nxt condition (Suc k) w = (Inr r, w')"
      using True run by (simp add: ng)
    have 2: "gen_take nxt (m - Suc p) (gen w') = Some (drop (Suc p) xs, s')"
      using gt by (simp add: m xs)
    have 3: "(r = PyNone \<and> Suc p = Suc k \<and> (\<forall>x\<in>set (take (Suc p) xs). condition x))
              \<or> (\<not> condition r \<and> (\<exists>ys. take (Suc p) xs = ys @ [r] \<and> (\<forall>x\<in>set ys. condition x)))"
    proof (rule disjE [OF alt])
      assume "r = PyNone \<and> p = k \<and> (\<forall>x\<in>set (take p xs'). condition x)"
      then show ?thesis using True by (simp add: xs)
    next
      assume a: "\<not> condition r \<and> (\<exists>ys. take p xs' = ys @ [r] \<and> (\<forall>x\<in>set ys. condition x))"
      then obtain ys where ys: "take p xs' = ys @ [r]" "\<forall>x\<in>set ys. condition x" by blast
      have "take (Suc p) xs = (x # ys) @ [r]" using ys by (simp add: xs)
      moreover have "\<forall>y\<in>set (x # ys). condition y" using ys True by simp
      ultimately show ?thesis using a by blast
    qed
    show ?thesis
      using 1 2 3 pk pl ou
      by (intro exI [of _ r] exI [of _ w'] exI [of _ "Suc p"]) simp
  qed
qed

lemma find_loop_spec:
  assumes "gen_take nxt m (gen w) = Some (xs, s')" and "sum_list (map nat bs) \<le> m"
  shows "\<exists>r w' p. find_loop nxt condition bs w = (Inr r, w') \<and> p \<le> sum_list (map nat bs)
           \<and> pulls w' = pulls w + p
           \<and> gen_take nxt (m - p) (gen w') = Some (drop p xs, s')
           \<and> ((r = PyNone \<and> (\<forall>x\<in>set (take p xs). condition x \<or> x = PyNone)
                \<and> ((\<forall>x\<in>set (take p xs). condition x) \<longrightarrow> p = sum_list (map nat bs)))
              \<or> (r \<noteq> PyNone \<and> \<not> condition r
                  \<and> (\<exists>ys. take p xs = ys @ [r] \<and> (\<forall>x\<in>set ys. condition x \<or> x = PyNone))))"
  using assms
proof (induction bs arbitrary: w m xs)
  case Nil
  then show ?case by (simp add: emit_def)
next
  case (Cons b bs)
  have bm: "nat b \<le> m" using Cons.prems(2) by simp
  from find_batch_loop_spec [OF Cons.prems(1) bm, of condition] obtain r0 w0 p0 where
    run0: "find_batch_loop nxt condition (nat b) w = (Inr r0, w0)" and p0: "p0 \<le> nat b"
    and pl0: "pulls w0 = pulls w + p0"
    and gt0: "gen_take nxt (m - p0) (gen w0) = Some (drop p0 xs, s')"
    and alt0: "(r0 = PyNone \<and> p0 = nat b \<and> (\<forall>x\<in>set (take p0 xs). condition x))
              \<or> (\<not> condition r0 \<and> (\<exists>ys. take p0 xs = ys @ [r0] \<and> (\<forall>x\<in>set ys. condition x)))"
    by blast
  let ?w0 = "emit [TqdmUpdate b] w0"
  show ?case
  proof (cases "r0 = PyNone")
    case False
    have 1: "find_loop nxt condition (b # bs) w = (Inr r0, emit [TqdmClose, PrintFound r0] ?w0)"
      using False run0 by (simp add: find_compute_batch_def)
    have 2: "\<not> condition r0 \<and> (\<exists>ys. take p0 xs = ys @ [r0] \<and> (\<forall>x\<in>set ys. condition x \<or> x = PyNone))"
      using alt0 False by blast
    show ?thesis
      using 1 2 False p0 pl0 gt0
      by (intro exI [of _ r0] exI [of _ "emit [TqdmClose, PrintFound r0] ?w0"] exI [of _ p0])
         (simp add: emit_def)
  next
    case True
    have first: "\<forall>x\<in>set (take p0 xs). condition x \<or> x = PyNone"
      using alt0 True by auto
    have full: "(\<forall>x\<in>set (take p0 xs). condition x) \<longrightarrow> p0 = nat b"
      using alt0 by auto
    have cont: "find_loop nxt condition (b # bs) w = find_loop nxt condition bs ?w0"
      using True run0 by (simp add: find_compute_batch_def)
    have g: "gen_take nxt (m - p0) (gen ?w0) = Some (drop p0 xs, s')"
      using gt0 by (simp add: emit_def)
    have le: "sum_list (map nat bs) \<le> m - p0" using Cons.prems(2) p0 by simp
    from Cons.IH [OF g le] obtain r1 w1 p1 where
      run1: "find_loop nxt condition bs ?w0 = (Inr r1, w1)"
      and p1: "p1 \<le> sum_list (map nat bs)"
      and pl1: "pulls w1 = pulls ?w0 + p1"
      and gt1: "gen_take nxt (m - p0 - p1) (gen w1) = Some (drop p1 (drop p0 xs), s')"
      and alt1: "(r1 = PyNone \<and> (\<forall>x\<in>set (take p1 (drop p0 xs)). condition x \<or> x = PyNone)
                \<and> ((\<forall>x\<in>set (take p1 (drop p0 xs)). condition x) \<longrightarrow> p1 = sum_list (map nat bs)))
              \<or> (r1 \<noteq> PyNone \<and> \<not> condition r1
                  \<and> (\<exists>ys. take p1 (drop p0 xs) = ys @ [r1] \<and> (\<forall>x\<in>set ys. condition x \<or> x = PyNone)))"
      by blast
    have tk: "take (p0 + p1) xs = take p0 xs @ take p1 (drop p0 xs)"
      by (simp add: take_add)
    have 1: "find_loop nxt condition (b # bs) w = (Inr r1, w1)"
      using cont run1 by simp
    have 2: "p0 + p1 \<le> sum_list (map nat (b # bs))" using p0 p1 by simp
    have 3: "pulls w1 = pulls w + (p0 + p1)" using pl0 pl1 by (simp add: emit_def)
    have 4: "gen_take nxt (m - (p0 + p1)) (gen w1) = Some (drop (p0 + p1) xs, s')"
      using gt1 by (simp add: add.commute)
    have 5: "(r1 = PyNone \<and> (\<forall>x\<in>set (take (p0 + p1) xs). condition x \<or> x = PyNone)
                \<and> ((\<forall>x\<in>set (take (p0 + p1) xs). condition x) \<longrightarrow> p0 + p1 = sum_list (map nat (b # bs))))
              \<or> (r1 \<noteq> PyNone \<and> \<not> condition r1
                  \<and> (\<exists>ys. take (p0 + p1) xs = ys @ [r1] \<and> (\<forall>x\<in>set ys. condition x \<or> x = PyNone)))"
    proof (rule disjE [OF alt1])
      assume a: "r1 = PyNone \<and> (\<forall>x\<in>set (take p1 (drop p0 xs)). condition x \<or> x = PyNone)
                \<and> ((\<forall>x\<in>set (take p1 (drop p0 xs)). condition x) \<longrightarrow> p1 = sum_list (map nat bs))"
      have "\<forall>x\<in>set (take (p0 + p1) xs). condition x \<or> x = PyNone"
        using a first unfolding tk by auto
      moreover have "(\<forall>x\<in>set (take (p0 + p1) xs). condition x) \<longrightarrow> p0 + p1 = sum_list (map nat (b # bs))"
        using a full unfolding tk by auto
      ultimately show ?thesis using a by blast
    next
      assume a: "r1 \<noteq> PyNone \<and> \<not> condition r1
                  \<and> (\<exists>ys. take p1 (drop p0 xs) = ys @ [r1] \<and> (\<forall>x\<in>set ys. condition x \<or> x = PyNone))"
      then obtain ys where ys: "take p1 (drop p0 xs) = ys @ [r1]" "\<forall>x\<in>set ys. condition x \<or> x = PyNone"
        by blast
      have "take (p0 + p1) xs = (take p0 xs @ ys) @ [r1]" using ys tk by simp
      moreover have "\<forall>x\<in>set (take p0 xs @ ys). condition x \<or> x = PyNone"
        using ys first by auto
      ultimately show ?thesis using a by blast
    qed
    show ?thesis
      using 1 2 3 4 5
      by (intro exI [of _ r1] exI [of _ w1] exI [of _ "p0 + p1"]) blast
  qed
qed

section \<open>The plan of a search\<close>

text \<open>The batches ask for \<open>n\<close> pulls in total (none when \<open>n\<close> is negative).\<close>

lemma listOfBatches_pulls: "sum_list (map nat (listOfBatches n)) = nat n"
proof (cases "0 \<le> n div 100")
  case True
  have r: "0 \<le> n mod 100" "n mod 100 < 100" by simp_all
  have n: "n = 100 * (n div 100) + n mod 100" by simp
  have "sum_list (map nat (listOfBatches n)) =
          nat (n mod 100) * nat (n div 100 + 1) + nat (100 - n mod 100) * nat (n div 100)"
    by (simp add: listOfBatches_replicate sum_list_replicate)
  also have "\<dots> = nat ((n mod 100) * (n div 100 + 1) + (100 - n mod 100) * (n div 100))"
    using True r by (simp add: nat_add_distrib nat_mult_distrib)
  also have "(n mod 100) * (n div 100 + 1) + (100 - n mod 100) * (n div 100) = 100 * (n div 100) + n mod 100"
    by (simp add: algebra_simps)
  finally show ?thesis by simp
next
  case False
  then have "n < 0" by (simp add: pos_imp_zdiv_nonneg_iff not_le)
  then show ?thesis using False
    by (simp add: listOfBatches_replicate sum_list_replicate)
qed

text \<open>
  Claim C5. For \<open>n \<ge> 0\<close> the batch list is \<open>n mod 100\<close> batches of size
  \<open>n div 100 + 1\<close> followed by \<open>100 - n mod 100\<close> batches of size \<open>n div 100\<close>. It has
  exactly 100 elements, they sum to \<open>n\<close>, any two differ by at most 1, the larger ones
  come first, and none is negative.
\<close>

theorem listOfBatches_plan:
  "0 \<le> n \<Longrightarrow>
     listOfBatches n =
       replicate (nat (n mod 100)) (n div 100 + 1) @ replicate (nat (100 - n mod 100)) (n div 100)
     \<and> length (listOfBatches n) = 100
     \<and> sum_list (listOfBatches n) = n
     \<and> (\<forall>a\<in>set (listOfBatches n). \<forall>b\<in>set (listOfBatches n). \<bar>a - b\<bar> \<le> 1)
     \<and> sorted_wrt (\<lambda>a b. b \<le> a) (listOfBatches n)
     \<and> (\<forall>b\<in>set (listOfBatches n). 0 \<le> b)"
proof -
  assume n: "0 \<le> n"
  have "\<forall>a\<in>set (listOfBatches n). \<forall>b\<in>set (listOfBatches n). \<bar>a - b\<bar> \<le> 1"
    by (auto simp: listOfBatches_replicate)
  moreover have "\<forall>b\<in>set (listOfBatches n). 0 \<le> b"
    using listOfBatches_set [of n] n by (auto simp: pos_imp_zdiv_nonneg_iff)
  ultimately show ?thesis
    using listOfBatches_replicate [of n] listOfBatches_length [of n] listOfBatches_sum [of n]
      listOfBatches_descending [of n]
    by blast
qed

theorem listOfBatches_plan_witness:
  "(0::int) \<le> 7 \<and> listOfBatches 7 = replicate 7 1 @ replicate 93 0
     \<and> length (listOfBatches 7) = 100 \<and> sum_list (listOfBatches 7) = 7"
  using listOfBatches_plan [of 7] by (simp add: sum_list_replicate)

section \<open>The progress bar's constructor\<close>

lemma tqdm_new_ok: "n \<le> maxsize \<Longrightarrow> tqdm_new n w = (Inr (), emit [TqdmNew n] w)"
  by (simp add: tqdm_new_def len_range_def maxsize_def)

lemma tqdm_new_overflow: "maxsize < n \<Longrightarrow> tqdm_new n w = (Inl OverflowError, w)"
  by (simp add: tqdm_new_def len_range_def maxsize_def)

lemma emit_emit: "emit es' (emit es w) = emit (es @ es') w"
  by (simp add: emit_def)

lemma find_counterexample_loop:
  "n \<le> maxsize \<Longrightarrow>
     find_counterexample n condition nxt show_progress w =
       find_loop nxt condition (listOfBatches n)
         (emit [PrintHeading ''Find counterexample'' n, TqdmNew n] w)"
  by (simp add: find_counterexample_def tqdm_new_ok emit_emit)


lemma count_counterexamples_loop:
  "n \<le> maxsize \<Longrightarrow>
     count_counterexamples n condition nxt show_progress w =
       (case count_loop nxt condition (listOfBatches n) 0
               (emit [PrintHeading ''Count counterexamples'' n, TqdmNew n] w) of
          (Inl e, w') \<Rightarrow> (Inl e, w')
        | (Inr number_of_counterexamples, w') \<Rightarrow>
            (Inr number_of_counterexamples, emit [PrintCount number_of_counterexamples] w'))"
  by (simp add: count_counterexamples_def tqdm_new_ok emit_emit)

lemma count_counterexamples_overflow:
  "maxsize < n \<Longrightarrow>
     count_counterexamples n condition nxt show_progress w =
       (Inl OverflowError, emit [PrintHeading ''Count counterexamples'' n] w)"
  by (simp add: count_counterexamples_def tqdm_new_overflow)

section \<open>The extremal searches\<close>

lemma smallest_counterexample_raises:
  "n \<le> maxsize \<Longrightarrow>
     smallest_counterexample n condition nxt get_object_weight show_progress w =
       (Inl ValueError, emit [PrintHeading ''Find the smallest'' n, TqdmNew n] w)"
  by (simp add: smallest_counterexample_def tqdm_new_ok emit_emit py_int_inf)

lemma greatest_counterexample_raises:
  "n \<le> maxsize \<Longrightarrow>
     greatest_counterexample n condition nxt get_object_weight show_progress w =
       (Inl ValueError, emit [PrintHeading ''Find the greatest'' n, TqdmNew n] w)"
  by (simp add: greatest_counterexample_def tqdm_new_ok emit_emit py_int_minus_inf)



lemma one_le_maxsize: "1 \<le> maxsize"
  by (simp add: maxsize_def)




text \<open>
  Claim C1, at a concrete input. With \<open>n = 1\<close> and the one candidate 5, the claim asks
  for the answer 5 when the condition never holds and for \<^verbatim>\<open>None\<close> when it always
  holds. \<^verbatim>\<open>smallest_counterexample\<close> raises \<^verbatim>\<open>ValueError\<close> in both runs.
\<close>

theorem smallest_counterexample_no_outcome:
  "fst (smallest_counterexample 1 never_holds list_next identity_weight False (fresh [PyVal 5]))
     = Inl ValueError
   \<and> fst (smallest_counterexample 1 always_holds list_next identity_weight False (fresh [PyVal 5]))
     = Inl ValueError"
  by (simp add: smallest_counterexample_raises one_le_maxsize)

text \<open>
  Claim C6, at a concrete input. With \<open>n = 1\<close> and a generator holding one candidate,
  the claim asks for exactly one call of \<^verbatim>\<open>next\<close>. \<^verbatim>\<open>smallest_counterexample\<close> and
  \<^verbatim>\<open>greatest_counterexample\<close> make none.
\<close>

theorem extremal_search_pulls_nothing:
  "pulls (snd (smallest_counterexample 1 never_holds list_next identity_weight False (fresh [PyVal 5]))) = 0
   \<and> pulls (snd (greatest_counterexample 1 never_holds list_next identity_weight False (fresh [PyVal 5]))) = 0"
  by (simp add: smallest_counterexample_raises greatest_counterexample_raises one_le_maxsize
      emit_def fresh_def)

section \<open>The count of counterexamples\<close>

lemma count_loop_value:
  assumes "gen_take nxt (nat n) (gen w) = Some (xs, s')" and "sum_list (map nat bs) = nat n"
  shows "fst (count_loop nxt condition bs 0 w) = Inr (int (length (filter (\<lambda>x. \<not> condition x) xs)))"
  using count_loop_ok [of nxt bs w xs s' condition 0] assms by simp

lemma count_counterexamples_run:
  assumes "n \<le> maxsize" and "gen_take nxt (nat n) (gen w) = Some (xs, s')"
  shows "count_counterexamples n condition nxt show_progress w =
           (Inr (int (length (filter (\<lambda>x. \<not> condition x) xs))),
            w\<lparr>gen := s', pulls := pulls w + nat n,
              out := out w @ [PrintHeading ''Count counterexamples'' n, TqdmNew n]
                       @ map TqdmUpdate (listOfBatches n)
                       @ [PrintCount (int (length (filter (\<lambda>x. \<not> condition x) xs)))]\<rparr>)"
proof -
  let ?w1 = "emit [PrintHeading ''Count counterexamples'' n, TqdmNew n] w"
  have "gen_take nxt (sum_list (map nat (listOfBatches n))) (gen ?w1) = Some (xs, s')"
    using assms(2) by (simp add: listOfBatches_pulls emit_def)
  from count_loop_ok [OF this, of condition 0]
  have run: "count_loop nxt condition (listOfBatches n) 0 ?w1 =
       (Inr (int (length (filter (\<lambda>x. \<not> condition x) xs))),
        ?w1\<lparr>gen := s', pulls := pulls ?w1 + nat n, out := out ?w1 @ map TqdmUpdate (listOfBatches n)\<rparr>)"
    by (simp add: listOfBatches_pulls)
  show ?thesis
    unfolding count_counterexamples_loop [OF assms(1)] run by (simp add: emit_def)
qed

text \<open>
  Claim C3, amended. When \<open>0 \<le> n \<le> 2 ^ 63 - 1\<close> and the generator yields at least \<open>n\<close>
  objects, \<^verbatim>\<open>count_counterexamples\<close> returns the number of objects among the first \<open>n\<close>
  that fail the condition. That number is between 0 and \<open>n\<close>, the generator is pulled
  exactly \<open>n\<close> times and is left after the \<open>n\<close> objects, and the loop gives the same
  count for every list of batch sizes that adds up to \<open>n\<close> pulls.
\<close>

theorem count_counterexamples_correct:
  assumes "0 \<le> n" and "n \<le> maxsize" and "gen_take nxt (nat n) (gen w) = Some (xs, s')"
  shows "fst (count_counterexamples n condition nxt show_progress w) =
           Inr (int (length (filter (\<lambda>x. \<not> condition x) xs)))
       \<and> 0 \<le> int (length (filter (\<lambda>x. \<not> condition x) xs))
       \<and> int (length (filter (\<lambda>x. \<not> condition x) xs)) \<le> n
       \<and> pulls (snd (count_counterexamples n condition nxt show_progress w)) = pulls w + nat n
       \<and> gen (snd (count_counterexamples n condition nxt show_progress w)) = s'
       \<and> (\<forall>bs. sum_list (map nat bs) = nat n \<longrightarrow>
             fst (count_loop nxt condition bs 0 w) =
               Inr (int (length (filter (\<lambda>x. \<not> condition x) xs))))"
proof -
  have "length xs = nat n" using assms(3) by (rule gen_take_length)
  moreover have "length (filter (\<lambda>x. \<not> condition x) xs) \<le> length xs" by simp
  ultimately have "int (length (filter (\<lambda>x. \<not> condition x) xs)) \<le> n"
    using assms(1) by linarith
  then show ?thesis
    using count_loop_value [OF assms(3)]
    by (simp add: count_counterexamples_run [OF assms(2,3)])
qed

lemma ten_le_maxsize: "10 \<le> maxsize"
  by (simp add: maxsize_def)

theorem count_counterexamples_correct_witness:
  "fst (count_counterexamples 10 is_even list_next False (fresh zero_to_nine)) = Inr 5
   \<and> pulls (snd (count_counterexamples 10 is_even list_next False (fresh zero_to_nine))) = 10
   \<and> gen (snd (count_counterexamples 10 is_even list_next False (fresh zero_to_nine))) = []"
proof -
  have h: "gen_take list_next (nat 10) (gen (fresh zero_to_nine :: (int, int pyobj list) world)) = Some (zero_to_nine, [])"
    by (simp add: gen_take_list_next fresh_def zero_to_nine_def)
  show ?thesis
    using count_counterexamples_correct [of 10, OF _ ten_le_maxsize h, of is_even False]
    by (simp add: zero_to_nine_def fresh_def)
qed

lemma gen_take_count_from:
  "gen_take count_from k i = Some (map (\<lambda>j. PyVal (i + int j)) [0..<k], i + int k)"
proof (induction k arbitrary: i)
  case 0
  then show ?case by simp
next
  case (Suc k)
  have "map (\<lambda>j. PyVal (i + int j)) [0..<Suc k] =
          PyVal i # map (\<lambda>j. PyVal (i + 1 + int j)) [0..<k]"
    by (simp add: upt_conv_Cons map_Suc_upt [symmetric] del: upt_Suc)
  then show ?case using Suc.IH [of "i + 1"] by (simp add: count_from_def del: upt_Suc)
qed

text \<open>
  Claim C3 as stated fails: with \<open>n = 2 ^ 63\<close> and a generator that counts upwards from
  0 for ever, the generator yields \<open>n\<close> objects, and \<^verbatim>\<open>count_counterexamples\<close> raises
  \<^verbatim>\<open>OverflowError\<close> when the progress bar is made, with no pull.
\<close>

theorem count_overflows_at_two_to_63:
  "gen_take count_from (nat (2 ^ 63)) (gen (fresh 0)) \<noteq> None
   \<and> fst (count_counterexamples (2 ^ 63) always_holds count_from False (fresh 0)) = Inl OverflowError
   \<and> pulls (snd (count_counterexamples (2 ^ 63) always_holds count_from False (fresh 0))) = 0"
  by (simp add: gen_take_count_from count_counterexamples_overflow maxsize_def emit_def fresh_def)

section \<open>Batches and the loop of \<^verbatim>\<open>find_counterexample\<close>, exactly\<close>

lemma find_batch_loop_pass:
  assumes "gen_take nxt k (gen w) = Some (xs, s')" and "\<forall>x\<in>set xs. condition x"
  shows "find_batch_loop nxt condition k w = (Inr PyNone, w\<lparr>gen := s', pulls := pulls w + k\<rparr>)"
  using assms
proof (induction k arbitrary: w xs)
  case 0
  then show ?case by simp
next
  case (Suc k)
  from Suc.prems(1) obtain x s1 xs' where
    step: "nxt (gen w) = Some (x, s1)" and rest: "gen_take nxt k s1 = Some (xs', s')"
    and xs: "xs = x # xs'"
    by (auto split: option.splits)
  let ?w1 = "w\<lparr>gen := s1, pulls := Suc (pulls w)\<rparr>"
  have ng: "next_gen nxt w = (Inr x, ?w1)" by (simp add: next_gen_def step)
  have g: "gen_take nxt k (gen ?w1) = Some (xs', s')" using rest by simp
  have ok: "\<forall>x\<in>set xs'. condition x" using Suc.prems(2) by (simp add: xs)
  have "condition x" using Suc.prems(2) by (simp add: xs)
  with Suc.IH [OF g ok] show ?case by (simp add: ng)
qed

lemma find_batch_loop_stops:
  assumes "gen_take nxt (Suc (length ys)) (gen w) = Some (ys @ [c], s0)"
    and "\<forall>x\<in>set ys. condition x" and "\<not> condition c" and "length ys < k"
  shows "find_batch_loop nxt condition k w =
           (Inr c, w\<lparr>gen := s0, pulls := pulls w + length ys + 1\<rparr>)"
  using assms
proof (induction ys arbitrary: k w)
  case Nil
  then obtain k' where k: "k = Suc k'" by (cases k) auto
  from Nil.prems(1) have "nxt (gen w) = Some (c, s0)"
    by (auto split: option.splits)
  then have "next_gen nxt w = (Inr c, w\<lparr>gen := s0, pulls := Suc (pulls w)\<rparr>)"
    by (simp add: next_gen_def)
  then show ?case using Nil.prems(3) by (simp add: k)
next
  case (Cons y ys)
  then obtain k' where k: "k = Suc k'" and lt: "length ys < k'" by (cases k) auto
  from Cons.prems(1) obtain s1 where
    step: "nxt (gen w) = Some (y, s1)"
    and rest: "gen_take nxt (Suc (length ys)) s1 = Some (ys @ [c], s0)"
    by (auto split: option.splits)
  let ?w1 = "w\<lparr>gen := s1, pulls := Suc (pulls w)\<rparr>"
  have ng: "next_gen nxt w = (Inr y, ?w1)" by (simp add: next_gen_def step)
  have g: "gen_take nxt (Suc (length ys)) (gen ?w1) = Some (ys @ [c], s0)" using rest by simp
  have ok: "\<forall>x\<in>set ys. condition x" and y: "condition y" using Cons.prems(2) by simp_all
  from Cons.IH [OF g ok Cons.prems(3) lt] y show ?case by (simp add: k ng)
qed

lemma gen_take_split:
  assumes "gen_take nxt m s = Some (xs, s')" and "a \<le> m"
  shows "\<exists>s1. gen_take nxt a s = Some (take a xs, s1)
           \<and> gen_take nxt (m - a) s1 = Some (drop a xs, s')"
  using gen_take_add [of nxt a "m - a" s xs s'] assms by simp


lemma find_loop_first_exact:
  assumes "gen_take nxt m (gen w) = Some (ys @ c # zs, s')"
    and "\<forall>x\<in>set ys. condition x" and "\<not> condition c" and "c \<noteq> PyNone"
    and "length ys < sum_list (map nat bs)"
  shows "\<exists>w' k. find_loop nxt condition bs w = (Inr c, w')
           \<and> pulls w' = pulls w + length ys + 1
           \<and> gen_take nxt (m - Suc (length ys)) (gen w') = Some (zs, s')
           \<and> 0 < k \<and> k \<le> length bs
           \<and> sum_list (map nat (take (k - 1) bs)) \<le> length ys
           \<and> length ys < sum_list (map nat (take k bs))
           \<and> out w' = out w @ map TqdmUpdate (take k bs) @ [TqdmClose, PrintFound c]"
  using assms
proof (induction bs arbitrary: w m ys)
  case Nil
  then show ?case by simp
next
  case (Cons b bs)
  have len: "length (ys @ c # zs) = m" using Cons.prems(1) by (rule gen_take_length)
  show ?case
  proof (cases "length ys < nat b")
    case True
    have "Suc (length ys) \<le> m" using len by simp
    from gen_take_split [OF Cons.prems(1) this] obtain s1 where
      a: "gen_take nxt (Suc (length ys)) (gen w) = Some (ys @ [c], s1)" and
      r: "gen_take nxt (m - Suc (length ys)) s1 = Some (zs, s')"
      by auto
    let ?w1 = "w\<lparr>gen := s1, pulls := pulls w + length ys + 1\<rparr>"
    let ?w2 = "emit [TqdmClose, PrintFound c] (emit [TqdmUpdate b] ?w1)"
    have "find_batch_loop nxt condition (nat b) w = (Inr c, ?w1)"
      by (rule find_batch_loop_stops [OF a Cons.prems(2,3) True])
    then have run: "find_loop nxt condition (b # bs) w = (Inr c, ?w2)"
      using Cons.prems(4) by (simp add: find_compute_batch_def)
    have "pulls ?w2 = pulls w + length ys + 1" by (simp add: emit_def)
    moreover have "gen_take nxt (m - Suc (length ys)) (gen ?w2) = Some (zs, s')"
      using r by (simp add: emit_def)
    moreover have "out ?w2 = out w @ map TqdmUpdate (take 1 (b # bs)) @ [TqdmClose, PrintFound c]"
      by (simp add: emit_def)
    moreover have "sum_list (map nat (take (1 - 1) (b # bs))) \<le> length ys" by simp
    moreover have "length ys < sum_list (map nat (take 1 (b # bs)))" using True by simp
    moreover have "(0::nat) < 1 \<and> 1 \<le> length (b # bs)" by simp
    ultimately show ?thesis using run by blast
  next
    case False
    then have bl: "nat b \<le> length ys" by simp
    then have bm: "nat b \<le> m" using len by simp
    from gen_take_split [OF Cons.prems(1) bm] bl obtain s1 where
      a: "gen_take nxt (nat b) (gen w) = Some (take (nat b) ys, s1)" and
      r: "gen_take nxt (m - nat b) s1 = Some (drop (nat b) ys @ c # zs, s')"
      by auto
    have oka: "\<forall>x\<in>set (take (nat b) ys). condition x"
      using Cons.prems(2) by (meson in_set_takeD)
    have okb: "\<forall>x\<in>set (drop (nat b) ys). condition x"
      using Cons.prems(2) by (meson in_set_dropD)
    let ?w1 = "emit [TqdmUpdate b] (w\<lparr>gen := s1, pulls := pulls w + nat b\<rparr>)"
    have g: "gen_take nxt (m - nat b) (gen ?w1) = Some (drop (nat b) ys @ c # zs, s')"
      using r by (simp add: emit_def)
    have lt: "length (drop (nat b) ys) < sum_list (map nat bs)"
      using Cons.prems(5) bl by simp
    have cont: "find_loop nxt condition (b # bs) w = find_loop nxt condition bs ?w1"
      by (simp add: find_compute_batch_def find_batch_loop_pass [OF a oka])
    from Cons.IH [OF g okb Cons.prems(3,4) lt] obtain w' k where
      run: "find_loop nxt condition bs ?w1 = (Inr c, w')"
      and pl: "pulls w' = pulls ?w1 + length (drop (nat b) ys) + 1"
      and gt: "gen_take nxt (m - nat b - Suc (length (drop (nat b) ys))) (gen w') = Some (zs, s')"
      and k: "0 < k" "k \<le> length bs"
      and lo: "sum_list (map nat (take (k - 1) bs)) \<le> length (drop (nat b) ys)"
      and hi: "length (drop (nat b) ys) < sum_list (map nat (take k bs))"
      and ou: "out w' = out ?w1 @ map TqdmUpdate (take k bs) @ [TqdmClose, PrintFound c]"
      by blast
    have 1: "find_loop nxt condition (b # bs) w = (Inr c, w')" using cont run by simp
    have 2: "pulls w' = pulls w + length ys + 1" using pl bl by (simp add: emit_def)
    have 3: "gen_take nxt (m - Suc (length ys)) (gen w') = Some (zs, s')"
      using gt bl by simp
    have 4: "0 < Suc k \<and> Suc k \<le> length (b # bs)" using k by simp
    have tk: "take (Suc k - 1) (b # bs) = b # take (k - 1) bs"
      using k by (cases k) simp_all
    have 5: "sum_list (map nat (take (Suc k - 1) (b # bs))) \<le> length ys"
      using lo bl unfolding tk by simp
    have 6: "length ys < sum_list (map nat (take (Suc k) (b # bs)))"
      using hi bl by simp
    have 7: "out w' = out w @ map TqdmUpdate (take (Suc k) (b # bs)) @ [TqdmClose, PrintFound c]"
      using ou by (simp add: emit_def)
    from 1 2 3 4 5 6 7 show ?thesis by blast
  qed
qed


lemma batch_pulls_le: "batch_pulls condition k xs \<le> k"
  by (simp add: batch_pulls_def)

lemma find_batch_loop_only_none:
  assumes "gen_take nxt m (gen w) = Some (xs, s')" and "k \<le> m"
    and "\<forall>x\<in>set xs. \<not> condition x \<longrightarrow> x = PyNone"
  shows "\<exists>w'. find_batch_loop nxt condition k w = (Inr PyNone, w')
           \<and> pulls w' = pulls w + batch_pulls condition k xs \<and> out w' = out w
           \<and> gen_take nxt (m - batch_pulls condition k xs) (gen w')
               = Some (drop (batch_pulls condition k xs) xs, s')"
  using assms
proof (induction k arbitrary: w m xs)
  case 0
  then show ?case by (simp add: batch_pulls_def)
next
  case (Suc k)
  from Suc.prems obtain m' where m: "m = Suc m'" and km: "k \<le> m'"
    by (cases m) auto
  from Suc.prems(1) m obtain x s1 xs' where
    step: "nxt (gen w) = Some (x, s1)" and rest: "gen_take nxt m' s1 = Some (xs', s')"
    and xs: "xs = x # xs'"
    by (auto split: option.splits)
  let ?w1 = "w\<lparr>gen := s1, pulls := Suc (pulls w)\<rparr>"
  have ng: "next_gen nxt w = (Inr x, ?w1)" by (simp add: next_gen_def step)
  show ?case
  proof (cases "condition x")
    case False
    then have "x = PyNone" using Suc.prems(3) by (simp add: xs)
    moreover have "batch_pulls condition (Suc k) (x # xs') = 1"
      using False by (simp add: batch_pulls_def)
    ultimately show ?thesis using False rest
      by (simp add: ng m xs)
  next
    case True
    have g: "gen_take nxt m' (gen ?w1) = Some (xs', s')" using rest by simp
    have ok: "\<forall>x\<in>set xs'. \<not> condition x \<longrightarrow> x = PyNone" using Suc.prems(3) by (simp add: xs)
    have bp: "batch_pulls condition (Suc k) (x # xs') = Suc (batch_pulls condition k xs')"
      using True by (simp add: batch_pulls_def)
    from Suc.IH [OF g km ok] obtain w' where
      "find_batch_loop nxt condition k ?w1 = (Inr PyNone, w')"
      "pulls w' = pulls ?w1 + batch_pulls condition k xs'" "out w' = out ?w1"
      "gen_take nxt (m' - batch_pulls condition k xs') (gen w')
               = Some (drop (batch_pulls condition k xs') xs', s')"
      by blast
    then show ?thesis using True
      by (simp add: ng bp m xs)
  qed
qed

lemma search_pulls_le: "search_pulls condition bs xs \<le> sum_list (map nat bs)"
proof (induction bs arbitrary: xs)
  case Nil
  then show ?case by simp
next
  case (Cons b bs)
  have "batch_pulls condition (nat b) xs \<le> nat b" by (rule batch_pulls_le)
  moreover have "search_pulls condition bs (drop (batch_pulls condition (nat b) xs) xs)
                   \<le> sum_list (map nat bs)"
    by (rule Cons.IH)
  ultimately show ?case by simp
qed

lemma find_loop_only_none_exact:
  assumes "gen_take nxt m (gen w) = Some (xs, s')" and "sum_list (map nat bs) \<le> m"
    and "\<forall>x\<in>set xs. \<not> condition x \<longrightarrow> x = PyNone"
  shows "\<exists>w'. find_loop nxt condition bs w = (Inr PyNone, w')
           \<and> pulls w' = pulls w + search_pulls condition bs xs
           \<and> out w' = out w @ map TqdmUpdate bs @ [TqdmClose, PrintNoConcluding]
           \<and> gen_take nxt (m - search_pulls condition bs xs) (gen w')
               = Some (drop (search_pulls condition bs xs) xs, s')"
  using assms
proof (induction bs arbitrary: w m xs)
  case Nil
  then show ?case by (simp add: emit_def)
next
  case (Cons b bs)
  let ?p = "batch_pulls condition (nat b) xs"
  have bm: "nat b \<le> m" using Cons.prems(2) by simp
  from find_batch_loop_only_none [OF Cons.prems(1) bm Cons.prems(3)] obtain w0 where
    run0: "find_batch_loop nxt condition (nat b) w = (Inr PyNone, w0)"
    and pl0: "pulls w0 = pulls w + ?p" and ou0: "out w0 = out w"
    and gt0: "gen_take nxt (m - ?p) (gen w0) = Some (drop ?p xs, s')"
    by blast
  let ?w0 = "emit [TqdmUpdate b] w0"
  have cont: "find_loop nxt condition (b # bs) w = find_loop nxt condition bs ?w0"
    using run0 by (simp add: find_compute_batch_def)
  have g: "gen_take nxt (m - ?p) (gen ?w0) = Some (drop ?p xs, s')"
    using gt0 by (simp add: emit_def)
  have le: "sum_list (map nat bs) \<le> m - ?p"
    using Cons.prems(2) batch_pulls_le [of condition "nat b" xs] by simp
  have ok: "\<forall>x\<in>set (drop ?p xs). \<not> condition x \<longrightarrow> x = PyNone"
    using Cons.prems(3) by (meson in_set_dropD)
  let ?q = "search_pulls condition bs (drop ?p xs)"
  from Cons.IH [OF g le ok] obtain w' where
    run: "find_loop nxt condition bs ?w0 = (Inr PyNone, w')"
    and pl: "pulls w' = pulls ?w0 + ?q"
    and ou: "out w' = out ?w0 @ map TqdmUpdate bs @ [TqdmClose, PrintNoConcluding]"
    and gt: "gen_take nxt (m - ?p - ?q) (gen w') = Some (drop ?q (drop ?p xs), s')"
    by blast
  have 1: "find_loop nxt condition (b # bs) w = (Inr PyNone, w')" using cont run by simp
  have 2: "pulls w' = pulls w + search_pulls condition (b # bs) xs"
    using pl pl0 by (simp add: emit_def)
  have 3: "out w' = out w @ map TqdmUpdate (b # bs) @ [TqdmClose, PrintNoConcluding]"
    using ou ou0 by (simp add: emit_def)
  have 4: "gen_take nxt (m - search_pulls condition (b # bs) xs) (gen w')
               = Some (drop (search_pulls condition (b # bs) xs) xs, s')"
    using gt by (simp add: add.commute)
  from 1 2 3 4 show ?case by blast
qed



section \<open>The first counterexample and \<^verbatim>\<open>None\<close>\<close>

text \<open>
  What a run of \<^verbatim>\<open>find_counterexample\<close> on a generator with at least \<open>n\<close> objects is,
  whatever the candidates: it raises nothing and pulls \<open>p \<le> n\<close> candidates; a result
  other than \<^verbatim>\<open>None\<close> is the last candidate pulled and fails the condition; every
  candidate pulled before the last satisfies the condition or is \<^verbatim>\<open>None\<close>.
\<close>

lemma find_counterexample_run:
  assumes "n \<le> maxsize" and "gen_take nxt (nat n) (gen w) = Some (xs, s')"
  shows "\<exists>r w' p. find_counterexample n condition nxt show_progress w = (Inr r, w')
           \<and> p \<le> nat n \<and> pulls w' = pulls w + p
           \<and> gen_take nxt (nat n - p) (gen w') = Some (drop p xs, s')
           \<and> ((r = PyNone \<and> (\<forall>x\<in>set (take p xs). condition x \<or> x = PyNone))
              \<or> (r \<noteq> PyNone \<and> \<not> condition r
                  \<and> (\<exists>ys. take p xs = ys @ [r] \<and> (\<forall>x\<in>set ys. condition x \<or> x = PyNone))))"
proof -
  let ?w1 = "emit [PrintHeading ''Find counterexample'' n, TqdmNew n] w"
  let ?bs = "listOfBatches n"
  have g: "gen_take nxt (sum_list (map nat ?bs)) (gen ?w1) = Some (xs, s')"
    using assms(2) by (simp add: listOfBatches_pulls emit_def)
  have pw: "pulls ?w1 = pulls w" by (simp add: emit_def)
  from find_loop_spec [OF g order_refl, of condition] obtain r w' p where
    run: "find_loop nxt condition ?bs ?w1 = (Inr r, w')"
    and pn: "p \<le> sum_list (map nat ?bs)"
    and pl: "pulls w' = pulls ?w1 + p"
    and gt: "gen_take nxt (sum_list (map nat ?bs) - p) (gen w') = Some (drop p xs, s')"
    and alt: "(r = PyNone \<and> (\<forall>x\<in>set (take p xs). condition x \<or> x = PyNone)
                \<and> ((\<forall>x\<in>set (take p xs). condition x) \<longrightarrow> p = sum_list (map nat ?bs)))
              \<or> (r \<noteq> PyNone \<and> \<not> condition r
                  \<and> (\<exists>ys. take p xs = ys @ [r] \<and> (\<forall>x\<in>set ys. condition x \<or> x = PyNone)))"
    by blast
  have 1: "find_counterexample n condition nxt show_progress w = (Inr r, w')"
    using run by (simp add: find_counterexample_loop [OF assms(1)])
  have 2: "p \<le> nat n" using pn by (simp add: listOfBatches_pulls)
  have 3: "pulls w' = pulls w + p" using pl pw by simp
  have 4: "gen_take nxt (nat n - p) (gen w') = Some (drop p xs, s')"
    using gt by (simp add: listOfBatches_pulls)
  have 5: "(r = PyNone \<and> (\<forall>x\<in>set (take p xs). condition x \<or> x = PyNone))
              \<or> (r \<noteq> PyNone \<and> \<not> condition r
                  \<and> (\<exists>ys. take p xs = ys @ [r] \<and> (\<forall>x\<in>set ys. condition x \<or> x = PyNone)))"
    using alt by blast
  from 1 2 3 4 5 show ?thesis by blast
qed

lemma two_le_maxsize: "2 \<le> maxsize"
  by (simp add: maxsize_def)


text \<open>
  Claim C4, at a concrete input. The generator yields \<^verbatim>\<open>None\<close> and then 5, the condition
  never holds and \<open>n = 2\<close>. The first candidate pulled fails the condition, so the claim
  (and the docstring: the first found counterexample is returned) asks for the search
  to end there, with that candidate. The search pulls a second time and returns 5.
\<close>

theorem find_counterexample_skips_none:
  "list_next none_then_five = Some (PyNone, [PyVal 5]) \<and> \<not> never_holds PyNone
   \<and> fst (find_counterexample 2 never_holds list_next False (fresh none_then_five)) = Inr (PyVal 5)
   \<and> pulls (snd (find_counterexample 2 never_holds list_next False (fresh none_then_five))) = 2"
  by (simp add: find_counterexample_loop two_le_maxsize listOfBatches_replicate
      find_compute_batch_def next_gen_def list_next_def none_then_five_def never_holds_def
      fresh_def emit_def numeral_2_eq_2 eval_nat_numeral)

text \<open>
  When the first candidate failing the condition is not \<^verbatim>\<open>None\<close>, or when every
  candidate failing it is \<^verbatim>\<open>None\<close>, the loop returns what the unbatched scan returns,
  for every list of batches.
\<close>

lemma first_failing_cases:
  "(first_failing condition xs = PyNone \<and> (\<forall>x\<in>set xs. condition x))
   \<or> (\<exists>ys zs. xs = ys @ first_failing condition xs # zs \<and> (\<forall>x\<in>set ys. condition x)
         \<and> \<not> condition (first_failing condition xs))"
proof (cases "List.find (\<lambda>x. \<not> condition x) xs")
  case None
  then have "\<forall>x\<in>set xs. condition x" by (auto simp: find_None_iff)
  moreover have "first_failing condition xs = PyNone" by (simp add: first_failing_def None)
  ultimately show ?thesis by blast
next
  case (Some c)
  then obtain i where i: "i < length xs" "\<not> condition (xs ! i)" "c = xs ! i"
    "\<forall>j<i. condition (xs ! j)"
    by (auto simp: find_Some_iff)
  have "xs = take i xs @ c # drop (Suc i) xs" using i by (simp add: id_take_nth_drop)
  moreover have "\<forall>x\<in>set (take i xs). condition x"
    using i by (auto simp: in_set_conv_nth)
  moreover have "first_failing condition xs = c" by (simp add: first_failing_def Some)
  ultimately show ?thesis using i by metis
qed

lemma find_loop_unbatched:
  assumes g: "gen_take nxt (sum_list (map nat bs)) (gen w) = Some (xs, s')"
    and nn: "first_failing condition xs \<noteq> PyNone \<or> (\<forall>x\<in>set xs. \<not> condition x \<longrightarrow> x = PyNone)"
  shows "fst (find_loop nxt condition bs w) = Inr (first_failing condition xs)"
proof (cases "\<forall>x\<in>set xs. \<not> condition x \<longrightarrow> x = PyNone")
  case True
  have "first_failing condition xs = PyNone"
  proof (rule disjE [OF first_failing_cases [of condition xs]])
    assume "first_failing condition xs = PyNone \<and> (\<forall>x\<in>set xs. condition x)"
    then show ?thesis by simp
  next
    assume "\<exists>ys zs. xs = ys @ first_failing condition xs # zs \<and> (\<forall>x\<in>set ys. condition x)
         \<and> \<not> condition (first_failing condition xs)"
    then obtain ys zs where xs: "xs = ys @ first_failing condition xs # zs"
      and c: "\<not> condition (first_failing condition xs)"
      by blast
    have "first_failing condition xs \<in> set xs" by (subst (2) xs) simp
    with True c show ?thesis by blast
  qed
  moreover from find_loop_only_none_exact [OF g order_refl True]
  have "fst (find_loop nxt condition bs w) = Inr PyNone" by auto
  ultimately show ?thesis by simp
next
  case False
  with nn have ne: "first_failing condition xs \<noteq> PyNone" by blast
  with first_failing_cases [of condition xs] obtain ys zs where
    xs: "xs = ys @ first_failing condition xs # zs"
    and ok: "\<forall>x\<in>set ys. condition x" and c: "\<not> condition (first_failing condition xs)"
    by blast
  have len: "length xs = sum_list (map nat bs)" using g by (rule gen_take_length)
  have "length xs = length ys + Suc (length zs)" by (subst xs) simp
  then have lt: "length ys < sum_list (map nat bs)" using len by simp
  have g': "gen_take nxt (sum_list (map nat bs)) (gen w)
              = Some (ys @ first_failing condition xs # zs, s')"
    using g xs by simp
  from find_loop_first_exact [OF g' ok c ne lt] show ?thesis by auto
qed

text \<open>
  Claim C8, at a concrete input. The generator yields \<^verbatim>\<open>None\<close> and then 5, the condition
  never holds and \<open>n = 2\<close>. The unbatched scan of the two candidates gives \<^verbatim>\<open>None\<close>, the
  first one failing; \<^verbatim>\<open>find_counterexample\<close> gives 5. The batches show in the outcome:
  the loop gives \<^verbatim>\<open>None\<close> with one batch of 2 and 5 with two batches of 1.
\<close>

theorem find_counterexample_batches_observable:
  "first_failing never_holds none_then_five = PyNone
   \<and> fst (find_counterexample 2 never_holds list_next False (fresh none_then_five)) = Inr (PyVal 5)
   \<and> fst (find_loop list_next never_holds [2] (fresh none_then_five)) = Inr PyNone
   \<and> fst (find_loop list_next never_holds [1, 1] (fresh none_then_five)) = Inr (PyVal 5)"
  by (simp add: find_counterexample_loop two_le_maxsize listOfBatches_replicate
      find_compute_batch_def next_gen_def list_next_def none_then_five_def never_holds_def
      fresh_def emit_def first_failing_def numeral_2_eq_2 eval_nat_numeral)





section \<open>A generator that runs out\<close>

lemma count_batch_loop_exhausted:
  assumes "gen_take nxt m (gen w) = Some (xs, s')" and "nxt s' = None" and "m < k"
  shows "\<exists>w'. count_batch_loop nxt condition k c w = (Inl StopIteration, w')
           \<and> pulls w' = pulls w + m + 1"
  using assms
proof (induction m arbitrary: k w c xs)
  case 0
  then obtain k' where k: "k = Suc k'" by (cases k) auto
  from 0 have "nxt (gen w) = None" by simp
  then have "next_gen nxt w = (Inl StopIteration, w\<lparr>pulls := Suc (pulls w)\<rparr>)"
    by (simp add: next_gen_def)
  then show ?case by (simp add: k)
next
  case (Suc m)
  then obtain k' where k: "k = Suc k'" and mk: "m < k'" by (cases k) auto
  from Suc.prems(1) obtain x s1 xs' where
    step: "nxt (gen w) = Some (x, s1)" and rest: "gen_take nxt m s1 = Some (xs', s')"
    by (auto split: option.splits)
  let ?w1 = "w\<lparr>gen := s1, pulls := Suc (pulls w)\<rparr>"
  have ng: "next_gen nxt w = (Inr x, ?w1)" by (simp add: next_gen_def step)
  have g: "gen_take nxt m (gen ?w1) = Some (xs', s')" using rest by simp
  from Suc.IH [OF g Suc.prems(2) mk]
  have "\<exists>w'. count_batch_loop nxt condition k' c' ?w1 = (Inl StopIteration, w')
           \<and> pulls w' = pulls ?w1 + m + 1" for c'
    by blast
  then show ?case by (simp add: k ng)
qed

lemma count_loop_exhausted:
  assumes "gen_take nxt m (gen w) = Some (xs, s')" and "nxt s' = None"
    and "m < sum_list (map nat bs)"
  shows "\<exists>w'. count_loop nxt condition bs acc w = (Inl StopIteration, w')
           \<and> pulls w' = pulls w + m + 1"
  using assms
proof (induction bs arbitrary: m w acc xs)
  case Nil
  then show ?case by simp
next
  case (Cons b bs)
  show ?case
  proof (cases "m < nat b")
    case True
    from count_batch_loop_exhausted [OF Cons.prems(1,2) True, of condition 0]
    show ?thesis by (auto simp: count_compute_batch_def)
  next
    case False
    then have m: "m = nat b + (m - nat b)" by simp
    from Cons.prems(1) obtain s1 where
      a: "gen_take nxt (nat b) (gen w) = Some (take (nat b) xs, s1)" and
      b: "gen_take nxt (m - nat b) s1 = Some (drop (nat b) xs, s')"
      using gen_take_add [of nxt "nat b" "m - nat b" "gen w" xs s'] m by auto
    let ?w1 = "emit [TqdmUpdate b] (w\<lparr>gen := s1, pulls := pulls w + nat b\<rparr>)"
    have g: "gen_take nxt (m - nat b) (gen ?w1) = Some (drop (nat b) xs, s')"
      using b by (simp add: emit_def)
    have lt: "m - nat b < sum_list (map nat bs)" using Cons.prems(3) False by simp
    from Cons.IH [OF g Cons.prems(2) lt]
    have ih: "\<exists>w'. count_loop nxt condition bs acc' ?w1 = (Inl StopIteration, w')
           \<and> pulls w' = pulls ?w1 + (m - nat b) + 1" for acc'
      by blast
    have p: "pulls ?w1 + (m - nat b) + 1 = pulls w + m + 1"
      using False by (simp add: emit_def)
    show ?thesis
      using ih p by (simp add: count_compute_batch_def count_batch_loop_ok [OF a])
  qed
qed

lemma find_batch_loop_exhausted:
  assumes "gen_take nxt m (gen w) = Some (xs, s')" and "nxt s' = None" and "m < k"
    and "\<forall>x\<in>set xs. condition x"
  shows "\<exists>w'. find_batch_loop nxt condition k w = (Inl StopIteration, w')
           \<and> pulls w' = pulls w + m + 1"
  using assms
proof (induction m arbitrary: k w xs)
  case 0
  then obtain k' where k: "k = Suc k'" by (cases k) auto
  from 0 have "nxt (gen w) = None" by simp
  then have "next_gen nxt w = (Inl StopIteration, w\<lparr>pulls := Suc (pulls w)\<rparr>)"
    by (simp add: next_gen_def)
  then show ?case by (simp add: k)
next
  case (Suc m)
  then obtain k' where k: "k = Suc k'" and mk: "m < k'" by (cases k) auto
  from Suc.prems(1) obtain x s1 xs' where
    step: "nxt (gen w) = Some (x, s1)" and rest: "gen_take nxt m s1 = Some (xs', s')"
    and xs: "xs = x # xs'"
    by (auto split: option.splits)
  let ?w1 = "w\<lparr>gen := s1, pulls := Suc (pulls w)\<rparr>"
  have ng: "next_gen nxt w = (Inr x, ?w1)" by (simp add: next_gen_def step)
  have g: "gen_take nxt m (gen ?w1) = Some (xs', s')" using rest by simp
  have ok: "\<forall>x\<in>set xs'. condition x" using Suc.prems(4) by (simp add: xs)
  have "condition x" using Suc.prems(4) by (simp add: xs)
  with Suc.IH [OF g Suc.prems(2) mk ok] show ?case by (simp add: k ng)
qed

lemma find_loop_exhausted:
  assumes "gen_take nxt m (gen w) = Some (xs, s')" and "nxt s' = None"
    and "m < sum_list (map nat bs)" and "\<forall>x\<in>set xs. condition x"
  shows "\<exists>w'. find_loop nxt condition bs w = (Inl StopIteration, w')
           \<and> pulls w' = pulls w + m + 1"
  using assms
proof (induction bs arbitrary: m w xs)
  case Nil
  then show ?case by simp
next
  case (Cons b bs)
  show ?case
  proof (cases "m < nat b")
    case True
    from find_batch_loop_exhausted [OF Cons.prems(1,2) True Cons.prems(4)]
    show ?thesis by (auto simp: find_compute_batch_def)
  next
    case False
    then have m: "m = nat b + (m - nat b)" by simp
    from Cons.prems(1) obtain s1 where
      a: "gen_take nxt (nat b) (gen w) = Some (take (nat b) xs, s1)" and
      b: "gen_take nxt (m - nat b) s1 = Some (drop (nat b) xs, s')"
      using gen_take_add [of nxt "nat b" "m - nat b" "gen w" xs s'] m by auto
    have oka: "\<forall>x\<in>set (take (nat b) xs). condition x"
      using Cons.prems(4) by (meson in_set_takeD)
    have okb: "\<forall>x\<in>set (drop (nat b) xs). condition x"
      using Cons.prems(4) by (meson in_set_dropD)
    let ?w1 = "emit [TqdmUpdate b] (w\<lparr>gen := s1, pulls := pulls w + nat b\<rparr>)"
    have g: "gen_take nxt (m - nat b) (gen ?w1) = Some (drop (nat b) xs, s')"
      using b by (simp add: emit_def)
    have lt: "m - nat b < sum_list (map nat bs)" using Cons.prems(3) False by simp
    from Cons.IH [OF g Cons.prems(2) lt okb]
    have ih: "\<exists>w'. find_loop nxt condition bs ?w1 = (Inl StopIteration, w')
           \<and> pulls w' = pulls ?w1 + (m - nat b) + 1"
      by blast
    have p: "pulls ?w1 + (m - nat b) + 1 = pulls w + m + 1"
      using False by (simp add: emit_def)
    show ?thesis
      using ih p by (simp add: find_compute_batch_def find_batch_loop_pass [OF a oka])
  qed
qed

text \<open>
  Claim C7, amended. Let the generator yield \<open>m\<close> objects and no more, with
  \<open>m < n \<le> 2 ^ 63 - 1\<close>. Then \<^verbatim>\<open>count_counterexamples\<close> raises \<^verbatim>\<open>StopIteration\<close> at call
  \<open>m + 1\<close> of \<^verbatim>\<open>next\<close> and returns no count, and \<^verbatim>\<open>find_counterexample\<close> does the same
  when all \<open>m\<close> objects satisfy the condition.
\<close>

theorem exhausted_source_raises:
  assumes "gen_take nxt m (gen w) = Some (xs, s')" and "nxt s' = None" and "m < nat n"
    and "n \<le> maxsize"
  shows "fst (count_counterexamples n condition nxt show_progress w) = Inl StopIteration
       \<and> pulls (snd (count_counterexamples n condition nxt show_progress w)) = pulls w + m + 1
       \<and> ((\<forall>x\<in>set xs. condition x) \<longrightarrow>
            fst (find_counterexample n condition nxt show_progress w) = Inl StopIteration
            \<and> pulls (snd (find_counterexample n condition nxt show_progress w)) = pulls w + m + 1)"
proof -
  let ?c = "emit [PrintHeading ''Count counterexamples'' n, TqdmNew n] w"
  let ?f = "emit [PrintHeading ''Find counterexample'' n, TqdmNew n] w"
  have lt: "m < sum_list (map nat (listOfBatches n))" using assms(3) by (simp add: listOfBatches_pulls)
  have gc: "gen_take nxt m (gen ?c) = Some (xs, s')" using assms(1) by (simp add: emit_def)
  have gf: "gen_take nxt m (gen ?f) = Some (xs, s')" using assms(1) by (simp add: emit_def)
  from count_loop_exhausted [OF gc assms(2) lt, of condition 0] obtain w' where
    "count_loop nxt condition (listOfBatches n) 0 ?c = (Inl StopIteration, w')"
    "pulls w' = pulls ?c + m + 1"
    by blast
  then have 1: "fst (count_counterexamples n condition nxt show_progress w) = Inl StopIteration
       \<and> pulls (snd (count_counterexamples n condition nxt show_progress w)) = pulls w + m + 1"
    by (simp add: count_counterexamples_loop [OF assms(4)] emit_def)
  have 2: "(\<forall>x\<in>set xs. condition x) \<longrightarrow>
            fst (find_counterexample n condition nxt show_progress w) = Inl StopIteration
            \<and> pulls (snd (find_counterexample n condition nxt show_progress w)) = pulls w + m + 1"
  proof
    assume "\<forall>x\<in>set xs. condition x"
    from find_loop_exhausted [OF gf assms(2) lt this] obtain w' where
      "find_loop nxt condition (listOfBatches n) ?f = (Inl StopIteration, w')"
      "pulls w' = pulls ?f + m + 1"
      by blast
    then show "fst (find_counterexample n condition nxt show_progress w) = Inl StopIteration
            \<and> pulls (snd (find_counterexample n condition nxt show_progress w)) = pulls w + m + 1"
      by (simp add: find_counterexample_loop [OF assms(4)] emit_def)
  qed
  from 1 2 show ?thesis by blast
qed

theorem exhausted_source_raises_witness:
  "fst (count_counterexamples 10 is_even list_next False (fresh three_evens)) = Inl StopIteration
   \<and> pulls (snd (count_counterexamples 10 is_even list_next False (fresh three_evens))) = 4
   \<and> fst (find_counterexample 10 is_even list_next False (fresh three_evens)) = Inl StopIteration
   \<and> pulls (snd (find_counterexample 10 is_even list_next False (fresh three_evens))) = 4"
proof -
  have g: "gen_take list_next 3 (gen (fresh three_evens :: (int, int pyobj list) world))
             = Some (three_evens, [])"
    by (simp add: gen_take_list_next fresh_def three_evens_def)
  have e: "list_next ([] :: int pyobj list) = None" by (simp add: list_next_def)
  have lt: "(3::nat) < nat 10" by simp
  have ok: "\<forall>x\<in>set three_evens. is_even x" by (simp add: three_evens_def)
  from exhausted_source_raises [OF g e lt ten_le_maxsize, of is_even False] ok
  show ?thesis by (simp add: fresh_def)
qed

text \<open>
  Claim C7 as stated fails: with \<open>n = 10\<close> and a generator holding the one candidate
  1, \<^verbatim>\<open>find_counterexample\<close> for "is even" returns 1 and raises nothing.
\<close>

theorem find_counterexample_short_source_returns:
  "gen_take list_next 10 (gen (fresh one_odd :: (int, int pyobj list) world)) = None
   \<and> fst (find_counterexample 10 is_even list_next False (fresh one_odd)) = Inr (PyVal 1)"
  by (simp add: find_counterexample_loop ten_le_maxsize listOfBatches_replicate
      find_compute_batch_def next_gen_def list_next_def one_odd_def fresh_def emit_def
      eval_nat_numeral)

section \<open>The trace and \<^verbatim>\<open>show_progress\<close>\<close>















end
